theory Spec2Isabelle
  imports Complex_Main "HOL-Library.Sublist"
begin

section \<open>The review pipeline of reviewer.py\<close>

text \<open>
  A shallow embedding of the batch pipeline of \<^verbatim>\<open>src/reviewer.py\<close>: the helpers
  \<^verbatim>\<open>read_file_content\<close>, \<^verbatim>\<open>write_to_md\<close>, \<^verbatim>\<open>to_openai_*_message\<close>,
  \<^verbatim>\<open>openai_request\<close> and the coroutine \<^verbatim>\<open>main\<close> with its local functions
  \<^verbatim>\<open>format_title\<close>, \<^verbatim>\<open>dict_to_batches\<close>, \<^verbatim>\<open>task\<close> and \<^verbatim>\<open>process_batch\<close>.

  Python strings are \<^typ>\<open>string\<close>. A Python \<^verbatim>\<open>dict\<close> is an association list in
  insertion order whose keys are distinct. The completion service, the file system and
  the Markdown files are the outside world: the service is a function of the number of
  requests issued so far and of the request, the file system is a record of two functions,
  and every request issued and every block appended to a Markdown file is recorded in the
  state that the effectful functions pass along. A call of the service returns a text or
  raises; a response without a text is not modelled. Logging is not modelled, and neither
  is the floating-point \<^verbatim>\<open>temperature\<close> that every request carries unchanged.
\<close>

subsection \<open>Module constants\<close>

definition DETAIL_ANALYSIS_PROMPT :: "string \<Rightarrow> string" where
  "DETAIL_ANALYSIS_PROMPT local_path = local_path @ ''/prompts/detail.md''"

definition SHORT_ANALYSIS_PROMPT :: "string \<Rightarrow> string" where
  "SHORT_ANALYSIS_PROMPT local_path = local_path @ ''/prompts/short.md''"

definition PROJECT_ANALYSIS_PROMPT :: "string \<Rightarrow> string" where
  "PROJECT_ANALYSIS_PROMPT local_path = local_path @ ''/prompts/project.md''"

definition DETAIL_ANALYSIS_MD :: string where
  "DETAIL_ANALYSIS_MD = ''detail_analysis.md''"

definition SHORT_ANALYSIS_MD :: string where
  "SHORT_ANALYSIS_MD = ''short_analysis.md''"

definition PROJECT_ANALYSIS_MD :: string where
  "PROJECT_ANALYSIS_MD = ''project_analysis.md''"

definition MODEL :: string where
  "MODEL = ''gpt-4-0125-preview''"

definition SEED :: int where
  "SEED = 66"

definition NUMBER_OF_CONCURRENT_REQUESTS :: int where
  "NUMBER_OF_CONCURRENT_REQUESTS = 20"

definition CANT_READ_FILE_MES :: string where
  "CANT_READ_FILE_MES = ''Can not read file''"

definition NO_CHANGES :: string where
  "NO_CHANGES = ''No changes required''"

definition MD_TITLE :: string where
  "MD_TITLE = ''## ''"

subsection \<open>Data\<close>

text \<open>The exceptions that can leave the modelled code: a failed completion request, and
  the \<^verbatim>\<open>ValueError\<close> of \<^verbatim>\<open>range\<close> with step zero. When several requests of a
  batch fail, which of their exceptions \<^verbatim>\<open>asyncio.gather\<close> raises depends on timing;
  the one service error stands for any of them.\<close>

datatype error = ServiceError | ValueError

text \<open>A chat message is the dict \<^verbatim>\<open>{"role": ..., "content": ...}\<close>.\<close>

record message =
  role :: string
  content :: string

text \<open>The keyword arguments of \<^verbatim>\<open>client.chat.completions.create\<close> (without the
  temperature).\<close>

record request =
  model :: string
  messages :: "message list"
  seed :: "int option"

text \<open>The completion service: given how many requests were issued before this one and
  the request, the generated text, or \<open>None\<close> when the call raises.\<close>

type_synonym client = "nat \<Rightarrow> request \<Rightarrow> string option"

text \<open>The file system as \<^verbatim>\<open>read_file_content\<close> sees it: \<^verbatim>\<open>os.path.relpath\<close>, and
  opening and reading a file as UTF-8 text (\<open>None\<close> when that raises).\<close>

record env =
  relpath :: "string \<Rightarrow> string \<Rightarrow> string"
  read_text :: "string \<Rightarrow> string option"

text \<open>The effects of a run: the requests issued, oldest first, and the blocks appended
  to the Markdown files as pairs of file name and text.\<close>

record state =
  issued :: "request list"
  written :: "(string \<times> string) list"

type_synonym 'v pydict = "(string \<times> 'v) list"

subsection \<open>Python primitives\<close>

text \<open>\<^verbatim>\<open>sub in s\<close> on strings.\<close>

definition str_in :: "string \<Rightarrow> string \<Rightarrow> bool" where
  "str_in sub s = sublist sub s"

text \<open>\<^verbatim>\<open>d[k] = v\<close>: an existing key keeps its place and gets the new value, a new key
  goes to the end.\<close>

fun dict_set :: "('k \<times> 'v) list \<Rightarrow> 'k \<Rightarrow> 'v \<Rightarrow> ('k \<times> 'v) list" where
  "dict_set [] k v = [(k, v)]"
| "dict_set ((k', v') # d) k v =
     (if k' = k then (k', v) # d else (k', v') # dict_set d k v)"

text \<open>\<^verbatim>\<open>dict(pairs)\<close>: the pairs are inserted one after the other.\<close>

definition dict_of :: "('k \<times> 'v) list \<Rightarrow> ('k \<times> 'v) list" where
  "dict_of ps = foldl (\<lambda>d (k, v). dict_set d k v) [] ps"

text \<open>\<^verbatim>\<open>len(range(0, stop, step))\<close> for a step other than zero.\<close>

definition range_len :: "int \<Rightarrow> int \<Rightarrow> nat" where
  "range_len stop step =
     (if 0 < step \<and> 0 < stop then nat ((stop - 1) div step) + 1 else 0)"

subsection \<open>Helpers of the module\<close>

definition read_file_content :: "env \<Rightarrow> string \<Rightarrow> string \<Rightarrow> bool \<Rightarrow> string \<times> string" where
  "read_file_content e file_path base_dir is_prompt =
     (let rel_path = relpath e file_path base_dir;
          marker = replicate 30 (CHR ''-'');
          title = marker @ '' '' @ rel_path @ '' '' @ marker @ ''\<newline>'';
          content0 = (if \<not> is_prompt then title else [])
      in case read_text e file_path of
           Some txt \<Rightarrow> (content0 @ txt @ ''\<newline>'', rel_path)
         | None \<Rightarrow> (title @ CANT_READ_FILE_MES @ ''\<newline>'', rel_path))"

definition write_to_md :: "string \<Rightarrow> string \<Rightarrow> state \<Rightarrow> state" where
  "write_to_md name data s = s\<lparr>written := written s @ [(name, data @ ''\<newline>'')]\<rparr>"

definition to_openai_system_message :: "string \<Rightarrow> message" where
  "to_openai_system_message prompt = \<lparr>role = ''system'', content = prompt\<rparr>"

definition to_openai_user_message :: "string \<Rightarrow> message" where
  "to_openai_user_message prompt = \<lparr>role = ''user'', content = prompt\<rparr>"

definition to_openai_assistant_message :: "string \<Rightarrow> message" where
  "to_openai_assistant_message prompt = \<lparr>role = ''assistant'', content = prompt\<rparr>"

text \<open>\<^verbatim>\<open>openai_request\<close>: one call of the service. The call is recorded whether or not
  it succeeds; a failing call raises.\<close>

definition openai_request ::
  "client \<Rightarrow> message list \<Rightarrow> string \<Rightarrow> int option \<Rightarrow> state \<Rightarrow> state \<times> (error + string)" where
  "openai_request cl msgs mdl sd s =
     (let rq = \<lparr>model = mdl, messages = msgs, seed = sd\<rparr>
      in (s\<lparr>issued := issued s @ [rq]\<rparr>,
          case cl (length (issued s)) rq of
            None \<Rightarrow> Inl ServiceError
          | Some text \<Rightarrow> Inr text))"

subsection \<open>The local functions of main\<close>

definition format_title :: "string \<Rightarrow> string \<Rightarrow> string" where
  "format_title k v = MD_TITLE @ k @ ''\<newline>\<newline>'' @ v"

text \<open>The loop of \<^verbatim>\<open>dict_to_batches\<close>: one batch per element of the range, each taken
  by \<^verbatim>\<open>islice\<close> from the one iterator over the items.\<close>

fun batches_loop :: "nat \<Rightarrow> nat \<Rightarrow> ('k \<times> 'v) list \<Rightarrow> ('k \<times> 'v) list list" where
  "batches_loop 0 batch_size it = []"
| "batches_loop (Suc n) batch_size it =
     dict_of (take batch_size it) # batches_loop n batch_size (drop batch_size it)"

text \<open>\<^verbatim>\<open>list(dict_to_batches(input_dict, batch_size))\<close>. A batch size of zero makes
  \<^verbatim>\<open>range\<close> raise; a negative one gives an empty range.\<close>

definition dict_to_batches :: "('k \<times> 'v) list \<Rightarrow> int \<Rightarrow> error + ('k \<times> 'v) list list" where
  "dict_to_batches input_dict batch_size =
     (if batch_size = 0 then Inl ValueError
      else Inr (batches_loop (range_len (int (length input_dict)) batch_size)
                  (nat batch_size) input_dict))"

definition task ::
  "client \<Rightarrow> string \<Rightarrow> message list \<Rightarrow> state \<Rightarrow> state \<times> (error + string \<times> string)" where
  "task cl k v s =
     (case openai_request cl v MODEL (Some SEED) s of
        (s', Inl e) \<Rightarrow> (s', Inl e)
      | (s', Inr text) \<Rightarrow> (s', Inr (k, text)))"

text \<open>\<^verbatim>\<open>process_batch\<close>: one task per item of the batch, all handed to
  \<^verbatim>\<open>asyncio.gather\<close>, which starts every one of them and returns their results in the
  order of the tasks, or raises when a task raises.\<close>

fun process_batch ::
  "client \<Rightarrow> message list pydict \<Rightarrow> state \<Rightarrow> state \<times> (error + (string \<times> string) list)" where
  "process_batch cl [] s = (s, Inr [])"
| "process_batch cl ((k, v) # b) s =
     (case task cl k v s of
        (s1, r) \<Rightarrow>
          (case process_batch cl b s1 of
             (s2, rs) \<Rightarrow>
               (s2, case r of
                      Inl e \<Rightarrow> Inl e
                    | Inr x \<Rightarrow> (case rs of Inl e \<Rightarrow> Inl e | Inr xs \<Rightarrow> Inr (x # xs)))))"

subsection \<open>The phases of main\<close>

text \<open>Lines 270 to 281: the detail prompts, one per file whose text does not hold the
  marker of an unreadable file.\<close>

fun detail_prompts_loop ::
  "env \<Rightarrow> string \<Rightarrow> string \<Rightarrow> string list \<Rightarrow> message list pydict \<Rightarrow> message list pydict" where
  "detail_prompts_loop e directory detail_analysis_prompt [] d = d"
| "detail_prompts_loop e directory detail_analysis_prompt (f_path # fs) d =
     (case read_file_content e f_path directory False of
        (file_detail_analysis, relative_path) \<Rightarrow>
          if str_in CANT_READ_FILE_MES file_detail_analysis
          then detail_prompts_loop e directory detail_analysis_prompt fs d
          else detail_prompts_loop e directory detail_analysis_prompt fs
                 (dict_set d relative_path
                    [to_openai_system_message detail_analysis_prompt,
                     to_openai_user_message file_detail_analysis]))"

definition detail_prompts ::
  "env \<Rightarrow> string \<Rightarrow> string \<Rightarrow> string list \<Rightarrow> message list pydict" where
  "detail_prompts e directory detail_analysis_prompt project_files =
     detail_prompts_loop e directory detail_analysis_prompt project_files []"

text \<open>Lines 283 to 292: the detail phase. The inner loop formats, writes and stores the
  results of one batch; the outer loop runs the batches one after the other and stops
  at the first batch that raises.\<close>

fun detail_results_loop ::
  "(string \<times> string) list \<Rightarrow> state \<Rightarrow> string pydict \<Rightarrow> state \<times> string pydict" where
  "detail_results_loop [] s d = (s, d)"
| "detail_results_loop ((key, result) # rs) s d =
     (let result_formatted = format_title key result
      in detail_results_loop rs
           (write_to_md DETAIL_ANALYSIS_MD result_formatted s)
           (dict_set d key result_formatted))"

fun detail_batches_loop ::
  "client \<Rightarrow> message list pydict list \<Rightarrow> state \<Rightarrow> string pydict
     \<Rightarrow> state \<times> (error + string pydict)" where
  "detail_batches_loop cl [] s d = (s, Inr d)"
| "detail_batches_loop cl (batch # batches) s d =
     (case process_batch cl batch s of
        (s1, Inl e) \<Rightarrow> (s1, Inl e)
      | (s1, Inr results) \<Rightarrow>
          (case detail_results_loop results s1 d of
             (s2, d2) \<Rightarrow> detail_batches_loop cl batches s2 d2))"

definition detail_phase ::
  "client \<Rightarrow> int \<Rightarrow> message list pydict \<Rightarrow> state \<Rightarrow> state \<times> (error + string pydict)" where
  "detail_phase cl batch_size detail_analysis_prompt_dict s =
     (case dict_to_batches detail_analysis_prompt_dict batch_size of
        Inl e \<Rightarrow> (s, Inl e)
      | Inr batches \<Rightarrow> detail_batches_loop cl batches s [])"

text \<open>Lines 296 to 302: the short prompts, one per detail result.\<close>

fun short_prompts_loop ::
  "string \<Rightarrow> string pydict \<Rightarrow> message list pydict \<Rightarrow> message list pydict" where
  "short_prompts_loop short_analysis_prompt [] d = d"
| "short_prompts_loop short_analysis_prompt ((key, val) # kvs) d =
     short_prompts_loop short_analysis_prompt kvs
       (dict_set d key
          [to_openai_system_message short_analysis_prompt,
           to_openai_system_message val])"

definition short_prompts :: "string \<Rightarrow> string pydict \<Rightarrow> message list pydict" where
  "short_prompts short_analysis_prompt detail_analysis_result_dict =
     short_prompts_loop short_analysis_prompt detail_analysis_result_dict []"

text \<open>Lines 304 to 317: the short phase, which keeps the formatted results that do not
  hold the sentinel.\<close>

fun short_results_loop ::
  "(string \<times> string) list \<Rightarrow> state \<Rightarrow> string list \<Rightarrow> state \<times> string list" where
  "short_results_loop [] s files_analysis_results = (s, files_analysis_results)"
| "short_results_loop ((key, result) # rs) s files_analysis_results =
     (let result_formatted = format_title key result
      in if str_in NO_CHANGES result_formatted
         then short_results_loop rs s files_analysis_results
         else short_results_loop rs
                (write_to_md SHORT_ANALYSIS_MD result_formatted s)
                (files_analysis_results @ [result_formatted]))"

fun short_batches_loop ::
  "client \<Rightarrow> message list pydict list \<Rightarrow> state \<Rightarrow> string list
     \<Rightarrow> state \<times> (error + string list)" where
  "short_batches_loop cl [] s files_analysis_results = (s, Inr files_analysis_results)"
| "short_batches_loop cl (batch # batches) s files_analysis_results =
     (case process_batch cl batch s of
        (s1, Inl e) \<Rightarrow> (s1, Inl e)
      | (s1, Inr results) \<Rightarrow>
          (case short_results_loop results s1 files_analysis_results of
             (s2, far2) \<Rightarrow> short_batches_loop cl batches s2 far2))"

definition short_phase ::
  "client \<Rightarrow> int \<Rightarrow> message list pydict \<Rightarrow> state \<Rightarrow> state \<times> (error + string list)" where
  "short_phase cl batch_size short_analysis_prompt_dict s =
     (case dict_to_batches short_analysis_prompt_dict batch_size of
        Inl e \<Rightarrow> (s, Inl e)
      | Inr batches \<Rightarrow> short_batches_loop cl batches s [])"

text \<open>Lines 321 to 330: the project phase.\<close>

definition project_messages :: "string \<Rightarrow> string list \<Rightarrow> message list" where
  "project_messages project_analysis_prompt files_analysis_results =
     map to_openai_system_message files_analysis_results
       @ [to_openai_system_message project_analysis_prompt]"

definition project_phase ::
  "client \<Rightarrow> string \<Rightarrow> string list \<Rightarrow> state \<Rightarrow> state \<times> (error + string)" where
  "project_phase cl project_analysis_prompt files_analysis_results s =
     openai_request cl (project_messages project_analysis_prompt files_analysis_results)
       MODEL (Some SEED) s"

text \<open>\<^verbatim>\<open>main\<close>. The tree text and the file list are what \<^verbatim>\<open>project_tree\<close> returned
  for the directory; \<open>local_path\<close> is the directory of the module.\<close>

definition main ::
  "client \<Rightarrow> env \<Rightarrow> string \<Rightarrow> string \<Rightarrow> string \<Rightarrow> string list \<Rightarrow> state
     \<Rightarrow> state \<times> (error + unit)" where
  "main cl e local_path directory tree project_files s =
     (let detail_analysis_prompt =
            fst (read_file_content e (DETAIL_ANALYSIS_PROMPT local_path) local_path True);
          short_analysis_prompt =
            fst (read_file_content e (SHORT_ANALYSIS_PROMPT local_path) local_path True);
          project_analysis_prompt =
            fst (read_file_content e (PROJECT_ANALYSIS_PROMPT local_path) local_path True);
          s0 = write_to_md DETAIL_ANALYSIS_MD
                 (MD_TITLE @ ''Project tree:\<newline>```\<newline>'' @ tree @ ''```\<newline>'') s;
          detail_analysis_prompt_dict =
            detail_prompts e directory detail_analysis_prompt project_files
      in case detail_phase cl NUMBER_OF_CONCURRENT_REQUESTS detail_analysis_prompt_dict s0 of
           (s1, Inl err) \<Rightarrow> (s1, Inl err)
         | (s1, Inr detail_analysis_result_dict) \<Rightarrow>
             (case short_phase cl NUMBER_OF_CONCURRENT_REQUESTS
                     (short_prompts short_analysis_prompt detail_analysis_result_dict) s1 of
                (s2, Inl err) \<Rightarrow> (s2, Inl err)
              | (s2, Inr files_analysis_results) \<Rightarrow>
                  (case project_phase cl project_analysis_prompt files_analysis_results s2 of
                     (s3, Inl err) \<Rightarrow> (s3, Inl err)
                   | (s3, Inr project_analysis_result) \<Rightarrow>
                       (write_to_md PROJECT_ANALYSIS_MD project_analysis_result s3, Inr ()))))"


subsection \<open>The request of a task and the answers of the service\<close>

text \<open>The request that \<^verbatim>\<open>task\<close> issues for a prompt.\<close>

definition task_request :: "message list \<Rightarrow> request" where
  "task_request v = \<lparr>model = MODEL, messages = v, seed = Some SEED\<rparr>"

text \<open>The answers of the service to the tasks of a mapping, issued in the order of the
  mapping as requests number \<open>n\<close>, \<open>n + 1\<close>, and so on.\<close>

fun answers :: "client \<Rightarrow> nat \<Rightarrow> message list pydict \<Rightarrow> string option list" where
  "answers cl n [] = []"
| "answers cl n ((k, v) # b) = cl n (task_request v) # answers cl (Suc n) b"

subsection \<open>Concrete inputs\<close>

text \<open>The state at the start of a run, and three detail prompts.\<close>

definition example_state :: state where
  "example_state = \<lparr>issued = [], written = []\<rparr>"

definition example_prompts :: "message list pydict" where
  "example_prompts =
     [(''a.py'', [to_openai_system_message ''review'', to_openai_user_message ''print(1)'']),
      (''b.py'', [to_openai_system_message ''review'', to_openai_user_message ''print(2)'']),
      (''c.py'', [to_openai_system_message ''review'', to_openai_user_message ''print(3)''])]"

text \<open>A service that answers every request with the content of its last message.\<close>

definition echo_client :: client where
  "echo_client = (\<lambda>i rq. Some (content (last (messages rq))))"

text \<open>A batch of two, and a service that fails on the second of its requests.\<close>

definition example_batch :: "message list pydict" where
  "example_batch =
     [(''a.py'', [to_openai_system_message ''review'', to_openai_user_message ''print(1)'']),
      (''b.py'', [to_openai_system_message ''review'', to_openai_user_message ''print(2)''])]"

definition failing_client :: client where
  "failing_client =
     (\<lambda>i rq. if content (last (messages rq)) = ''print(2)'' then None else Some ''fine'')"


text \<open>A file system in which every file can be read and holds the words of the marker.\<close>

definition marker_env :: env where
  "marker_env =
     \<lparr>relpath = (\<lambda>file_path base_dir. file_path),
      read_text = (\<lambda>file_path. Some ''msg = Can not read file'')\<rparr>"

text \<open>A state late in a run: a request was issued and a block written before.\<close>

definition busy_state :: state where
  "busy_state =
     \<lparr>issued = [task_request [to_openai_system_message ''earlier'']],
      written = [(DETAIL_ANALYSIS_MD, ''earlier'')]\<rparr>"

text \<open>A file system in which \<^verbatim>\<open>b.py\<close> cannot be read and every other file,
  the prompt files among them, holds the same text.\<close>

definition run_env :: env where
  "run_env =
     \<lparr>relpath = (\<lambda>file_path base_dir. file_path),
      read_text = (\<lambda>file_path. if file_path = ''b.py'' then None else Some ''text'')\<rparr>"

text \<open>A service that answers every request with the sentinel.\<close>

definition no_changes_client :: client where
  "no_changes_client = (\<lambda>i rq. Some ''No changes required'')"

text \<open>What \<^verbatim>\<open>read_file_content\<close> returns for \<^verbatim>\<open>a.py\<close> in that file system.\<close>

definition a_text :: string where
  "a_text = ''------------------------------ a.py ------------------------------\<newline>text\<newline>''"





section \<open>Properties\<close>

subsection \<open>Dictionaries and batches\<close>

lemma dict_set_fresh: "k \<notin> fst ` set d \<Longrightarrow> dict_set d k v = d @ [(k, v)]"
  by (induction d) auto

lemma dict_of_foldl_distinct:
  "distinct (map fst (d @ ps)) \<Longrightarrow> foldl (\<lambda>d (k, v). dict_set d k v) d ps = d @ ps"
proof (induction ps arbitrary: d)
  case Nil
  then show ?case by simp
next
  case (Cons p ps)
  obtain k v where p: "p = (k, v)" by (cases p)
  from Cons.prems have fresh: "k \<notin> fst ` set d" by (auto simp: p)
  from Cons.prems have "distinct (map fst ((d @ [(k, v)]) @ ps))" by (simp add: p)
  from Cons.IH [OF this] show ?case by (simp add: p dict_set_fresh [OF fresh])
qed

lemma dict_of_distinct: "distinct (map fst ps) \<Longrightarrow> dict_of ps = ps"
  using dict_of_foldl_distinct [of "[]" ps] by (simp add: dict_of_def)

lemma distinct_keys_take: "distinct (map fst xs) \<Longrightarrow> distinct (map fst (take n xs))"
  by (simp add: take_map [symmetric] distinct_take del: take_map)

lemma distinct_keys_drop: "distinct (map fst xs) \<Longrightarrow> distinct (map fst (drop n xs))"
  by (simp add: drop_map [symmetric] distinct_drop del: drop_map)

lemma batches_loop_nth:
  "distinct (map fst it) \<Longrightarrow> i < n \<Longrightarrow>
   batches_loop n c it ! i = take c (drop (i * c) it)"
proof (induction n arbitrary: it i)
  case 0
  then show ?case by simp
next
  case (Suc n)
  show ?case
  proof (cases i)
    case 0
    then show ?thesis using Suc.prems by (simp add: dict_of_distinct distinct_keys_take)
  next
    case (Suc j)
    with Suc.prems have "j < n" by simp
    from Suc.IH [OF distinct_keys_drop [OF Suc.prems(1)] this]
    show ?thesis using Suc by (simp add: add.commute)
  qed
qed

lemma length_batches_loop: "length (batches_loop n c it) = n"
  by (induction n arbitrary: it) auto

lemma concat_batches_loop:
  "distinct (map fst it) \<Longrightarrow> concat (batches_loop n c it) = take (n * c) it"
proof (induction n arbitrary: it)
  case 0
  then show ?case by simp
next
  case (Suc n)
  from Suc.IH [OF distinct_keys_drop [OF Suc.prems]]
  show ?case using Suc.prems
    by (simp add: dict_of_distinct distinct_keys_take take_add add.commute)
qed



lemma neg_div_ceil:
  fixes a c :: int
  assumes "0 < c"
  shows "- ((- a) div c) = (a - 1) div c + 1"
proof -
  define q where "q = (a - 1) div c"
  define r where "r = (a - 1) mod c"
  have a: "a - 1 = c * q + r" by (simp add: q_def r_def)
  have r: "0 \<le> r" "r < c" using assms by (simp_all add: r_def)
  have "- a = c * (- q - 1) + (c - r - 1)" using a by (simp add: algebra_simps)
  moreover have "0 \<le> c - r - 1" "c - r - 1 < c" using r by simp_all
  ultimately have "(- a) div c = - q - 1" by (rule int_div_pos_eq)
  then show ?thesis by (simp add: q_def)
qed

lemma ceiling_div_range:
  fixes c :: int
  assumes "1 \<le> c"
  shows "\<lceil>real n / real_of_int c\<rceil> = (if 0 < n then (int n - 1) div c + 1 else 0)"
proof -
  have "real n / real_of_int c = real_of_int (int n) / real_of_int c" by simp
  then have "\<lceil>real n / real_of_int c\<rceil> = - ((- int n) div c)"
    by (simp only: ceiling_divide_eq_div)
  also have "\<dots> = (int n - 1) div c + 1" using assms by (intro neg_div_ceil) simp
  finally show ?thesis using assms by (auto simp: div_eq_minus1)
qed

lemma range_len_nat:
  assumes "1 \<le> c"
  shows "range_len (int n) c = (if 0 < n then (n - 1) div nat c + 1 else 0)"
proof (cases "0 < n")
  case False
  then show ?thesis by (simp add: range_len_def)
next
  case True
  have "(int n - 1) div c = int ((n - 1) div nat c)"
    using True assms by (simp add: zdiv_int of_nat_diff)
  then show ?thesis using True assms by (simp add: range_len_def)
qed

lemma range_len_ceiling:
  assumes "1 \<le> c"
  shows "int (range_len (int n) c) = \<lceil>real n / real_of_int c\<rceil>"
proof -
  have "0 < n \<Longrightarrow> 0 \<le> (int n - 1) div c"
    using assms by (simp add: pos_imp_zdiv_nonneg_iff)
  then show ?thesis
    using assms by (simp add: ceiling_div_range range_len_def)
qed

lemma range_len_covers:
  assumes "1 \<le> c"
  shows "n \<le> range_len (int n) c * nat c"
proof (cases "0 < n")
  case False
  then show ?thesis by simp
next
  case True
  define k where "k = nat c"
  have k: "0 < k" using assms by (simp add: k_def)
  have "n - 1 = (n - 1) div k * k + (n - 1) mod k" by simp
  moreover have "(n - 1) mod k < k" using k by simp
  ultimately have "n - 1 < (n - 1) div k * k + k" by linarith
  then have "n \<le> ((n - 1) div k + 1) * k" using True by (simp add: algebra_simps)
  then show ?thesis using True assms by (simp add: range_len_nat k_def)
qed

lemma range_len_full:
  assumes "1 \<le> c" and "Suc i < range_len (int n) c"
  shows "Suc i * nat c \<le> n"
proof -
  define k where "k = nat c"
  have k: "0 < k" using assms by (simp add: k_def)
  from assms have n: "0 < n" by (auto simp: range_len_nat split: if_splits)
  with assms have "Suc i \<le> (n - 1) div k" by (simp add: range_len_nat k_def)
  then have "Suc i * k \<le> (n - 1) div k * k" by (rule mult_le_mono1)
  also have "\<dots> \<le> n - 1" by simp
  finally show ?thesis using n by (simp add: k_def)
qed

lemma range_len_nonempty:
  assumes "1 \<le> c" and "i < range_len (int n) c"
  shows "i * nat c < n"
proof -
  define k where "k = nat c"
  from assms have n: "0 < n" by (auto simp: range_len_nat split: if_splits)
  with assms have "i \<le> (n - 1) div k" by (simp add: range_len_nat k_def)
  then have "i * k \<le> (n - 1) div k * k" by (rule mult_le_mono1)
  also have "\<dots> \<le> n - 1" by simp
  finally show ?thesis using n by (simp add: k_def)
qed

text \<open>
  Claim C3. For a mapping \<open>M\<close> (distinct keys) and a batch size \<open>c \<ge> 1\<close>,
  \<^verbatim>\<open>dict_to_batches\<close> returns exactly \<open>\<lceil>|M| / c\<rceil>\<close> batches; batch \<open>i\<close> is the
  \<open>c\<close> entries of \<open>M\<close> from position \<open>i * c\<close> on, in the order of \<open>M\<close>; no batch is
  empty or longer than \<open>c\<close>, every batch but the last has exactly \<open>c\<close> entries, and the
  batches concatenated are \<open>M\<close>. An empty mapping gives no batch, and a phase run on
  it returns the empty result with the state unchanged: no request is issued.
\<close>

theorem dict_to_batches_partition:
  assumes "1 \<le> c" and "distinct (map fst M)"
  shows "\<exists>bs. dict_to_batches M c = Inr bs
           \<and> int (length bs) = \<lceil>real (length M) / real_of_int c\<rceil>
           \<and> concat bs = M
           \<and> (\<forall>i < length bs. bs ! i = take (nat c) (drop (i * nat c) M)
                \<and> bs ! i \<noteq> [] \<and> length (bs ! i) \<le> nat c)
           \<and> (\<forall>i. Suc i < length bs \<longrightarrow> length (bs ! i) = nat c)
           \<and> (M = [] \<longrightarrow> bs = [])
           \<and> detail_phase cl c [] s = (s, Inr [])
           \<and> short_phase cl c [] s = (s, Inr [])"
proof -
  define n where "n = range_len (int (length M)) c"
  define bs where "bs = batches_loop n (nat c) M"
  have c0: "c \<noteq> 0" using assms(1) by simp
  have b: "dict_to_batches M c = Inr bs"
    using c0 by (simp add: dict_to_batches_def bs_def n_def)
  have len: "length bs = n" by (simp add: bs_def length_batches_loop)
  have ceil: "int (length bs) = \<lceil>real (length M) / real_of_int c\<rceil>"
    by (simp add: len n_def range_len_ceiling [OF assms(1)])
  have "concat bs = take (n * nat c) M"
    by (simp add: bs_def concat_batches_loop [OF assms(2)])
  then have cat: "concat bs = M"
    using range_len_covers [OF assms(1), of "length M"] by (simp add: n_def)
  have nth: "bs ! i = take (nat c) (drop (i * nat c) M)" if "i < length bs" for i
  proof -
    from that have "i < n" by (simp add: len)
    then show ?thesis unfolding bs_def by (rule batches_loop_nth [OF assms(2)])
  qed
  have ne: "bs ! i \<noteq> []" if "i < length bs" for i
    using that range_len_nonempty [OF assms(1), of i "length M"] assms(1)
    by (simp add: nth len n_def)
  have le: "length (bs ! i) \<le> nat c" if "i < length bs" for i
    using that by (simp add: nth)
  have full: "length (bs ! i) = nat c" if "Suc i < length bs" for i
  proof -
    from that have "i < length bs" by simp
    moreover have "Suc i * nat c \<le> length M"
      using that range_len_full [OF assms(1), of i "length M"] by (simp add: len n_def)
    ultimately show ?thesis by (simp add: nth)
  qed
  have empty: "M = [] \<longrightarrow> bs = []"
    by (simp add: bs_def n_def range_len_def)
  have d0: "detail_phase cl c [] s = (s, Inr [])"
    using c0 by (simp add: detail_phase_def dict_to_batches_def range_len_def)
  have s0: "short_phase cl c [] s = (s, Inr [])"
    using c0 by (simp add: short_phase_def dict_to_batches_def range_len_def)
  from b ceil cat nth ne le full empty d0 s0 show ?thesis by blast
qed


theorem dict_to_batches_partition_witness:
  "(1::int) \<le> 2 \<and> distinct (map fst example_prompts)
   \<and> dict_to_batches example_prompts 2
       = Inr [take 2 example_prompts, drop 2 example_prompts]
   \<and> detail_phase echo_client 2 [] example_state = (example_state, Inr [])"
proof -
  have c: "(1::int) \<le> 2" by simp
  have d: "distinct (map fst example_prompts)" by (simp add: example_prompts_def)
  from dict_to_batches_partition [OF c d, of echo_client example_state]
  obtain bs where bs: "dict_to_batches example_prompts 2 = Inr bs"
    and len: "int (length bs) = \<lceil>real (length example_prompts) / real_of_int 2\<rceil>"
    and nth: "\<forall>i < length bs. bs ! i = take (nat 2) (drop (i * nat 2) example_prompts)
                \<and> bs ! i \<noteq> [] \<and> length (bs ! i) \<le> nat 2"
    and e: "detail_phase echo_client 2 [] example_state = (example_state, Inr [])"
    by blast
  have "\<lceil>real (length example_prompts) / real_of_int 2\<rceil> = 2"
    by (simp add: example_prompts_def ceiling_divide_eq_div [of 3 2, simplified])
  with len have l2: "length bs = 2" by simp
  then have "bs = [bs ! 0, bs ! 1]"
    by (cases bs; cases "tl bs"; cases "tl (tl bs)") auto
  also have "bs ! 0 = take 2 example_prompts" using nth l2 by simp
  also have "bs ! 1 = drop 2 example_prompts"
    using nth l2 by (simp add: example_prompts_def)
  finally show ?thesis using c d bs e by simp
qed

subsection \<open>Batches and phases\<close>

lemma answers_append:
  "answers cl n (xs @ ys) = answers cl n xs @ answers cl (n + length xs) ys"
  by (induction xs arbitrary: n) auto

lemma length_answers: "length (answers cl n b) = length b"
  by (induction b arbitrary: n) auto

lemma task_eq:
  "task cl k v s =
     (s\<lparr>issued := issued s @ [task_request v]\<rparr>,
      case cl (length (issued s)) (task_request v) of
        None \<Rightarrow> Inl ServiceError
      | Some text \<Rightarrow> Inr (k, text))"
  by (simp add: task_def openai_request_def task_request_def Let_def split: option.splits)

lemma process_batch_eq:
  "process_batch cl b s =
     (s\<lparr>issued := issued s @ map (\<lambda>(k, v). task_request v) b\<rparr>,
      if None \<in> set (answers cl (length (issued s)) b) then Inl ServiceError
      else Inr (zip (map fst b) (map the (answers cl (length (issued s)) b))))"
proof (induction b arbitrary: s)
  case Nil
  then show ?case by simp
next
  case (Cons p b)
  obtain k v where p: "p = (k, v)" by (cases p)
  show ?case
    by (simp add: p task_eq Cons.IH split: option.splits)
qed

lemma detail_results_loop_eq:
  "detail_results_loop rs s d =
     (s\<lparr>written := written s
           @ map (\<lambda>(k, r). (DETAIL_ANALYSIS_MD, format_title k r @ ''\<newline>'')) rs\<rparr>,
      foldl (\<lambda>d (k, r). dict_set d k (format_title k r)) d rs)"
proof (induction rs arbitrary: s d)
  case Nil
  then show ?case by simp
next
  case (Cons p rs)
  obtain k r where p: "p = (k, r)" by (cases p)
  show ?case by (simp add: p Cons.IH write_to_md_def Let_def)
qed

lemma short_results_loop_eq:
  "short_results_loop rs s far =
     (s\<lparr>written := written s
           @ map (\<lambda>t. (SHORT_ANALYSIS_MD, t @ ''\<newline>''))
               (filter (\<lambda>t. \<not> str_in NO_CHANGES t) (map (\<lambda>(k, r). format_title k r) rs))\<rparr>,
      far @ filter (\<lambda>t. \<not> str_in NO_CHANGES t) (map (\<lambda>(k, r). format_title k r) rs))"
proof (induction rs arbitrary: s far)
  case Nil
  then show ?case by simp
next
  case (Cons p rs)
  obtain k r where p: "p = (k, r)" by (cases p)
  show ?case by (simp add: p Cons.IH write_to_md_def Let_def)
qed


lemma detail_batches_loop_ok:
  "None \<notin> set (answers cl (length (issued s)) (concat bs)) \<Longrightarrow>
   detail_batches_loop cl bs s d =
     (s\<lparr>issued := issued s @ map (\<lambda>(k, v). task_request v) (concat bs),
         written := written s
           @ map (\<lambda>(k, r). (DETAIL_ANALYSIS_MD, format_title k r @ ''\<newline>''))
               (zip (map fst (concat bs))
                  (map the (answers cl (length (issued s)) (concat bs))))\<rparr>,
      Inr (foldl (\<lambda>d (k, r). dict_set d k (format_title k r)) d
             (zip (map fst (concat bs))
                (map the (answers cl (length (issued s)) (concat bs))))))"
proof (induction bs arbitrary: s d)
  case Nil
  then show ?case by simp
next
  case (Cons b bs)
  let ?n = "length (issued s)"
  let ?s1 = "s\<lparr>issued := issued s @ map (\<lambda>(k, v). task_request v) b\<rparr>"
  let ?rs = "zip (map fst b) (map the (answers cl ?n b))"
  let ?s2 = "?s1\<lparr>written := written ?s1
               @ map (\<lambda>(k, r). (DETAIL_ANALYSIS_MD, format_title k r @ ''\<newline>'')) ?rs\<rparr>"
  let ?d2 = "foldl (\<lambda>d (k, r). dict_set d k (format_title k r)) d ?rs"
  from Cons.prems have ok1: "None \<notin> set (answers cl ?n b)"
    and ok2: "None \<notin> set (answers cl (?n + length b) (concat bs))"
    by (simp_all add: answers_append)
  have len: "length (issued ?s2) = ?n + length b" by simp
  have step: "detail_batches_loop cl (b # bs) s d = detail_batches_loop cl bs ?s2 ?d2"
    using ok1 by (simp add: process_batch_eq detail_results_loop_eq)
  from ok2 have "None \<notin> set (answers cl (length (issued ?s2)) (concat bs))"
    by simp
  from Cons.IH [OF this, of ?d2] show ?case
    unfolding step len
    by (simp add: answers_append length_answers)
qed

lemma detail_batches_loop_fail:
  "None \<in> set (answers cl (length (issued s)) (concat bs)) \<Longrightarrow>
   snd (detail_batches_loop cl bs s d) = Inl ServiceError"
proof (induction bs arbitrary: s d)
  case Nil
  then show ?case by simp
next
  case (Cons b bs)
  let ?n = "length (issued s)"
  show ?case
  proof (cases "None \<in> set (answers cl ?n b)")
    case True
    then show ?thesis by (simp add: process_batch_eq)
  next
    case False
    let ?s1 = "s\<lparr>issued := issued s @ map (\<lambda>(k, v). task_request v) b\<rparr>"
    let ?rs = "zip (map fst b) (map the (answers cl ?n b))"
    let ?s2 = "?s1\<lparr>written := written ?s1
               @ map (\<lambda>(k, r). (DETAIL_ANALYSIS_MD, format_title k r @ ''\<newline>'')) ?rs\<rparr>"
    let ?d2 = "foldl (\<lambda>d (k, r). dict_set d k (format_title k r)) d ?rs"
    have len: "length (issued ?s2) = ?n + length b" by simp
    have step: "detail_batches_loop cl (b # bs) s d = detail_batches_loop cl bs ?s2 ?d2"
      using False by (simp add: process_batch_eq detail_results_loop_eq)
    from Cons.prems False have "None \<in> set (answers cl (?n + length b) (concat bs))"
      by (simp add: answers_append)
    then have "None \<in> set (answers cl (length (issued ?s2)) (concat bs))"
      by simp
    from Cons.IH [OF this, of ?d2] show ?thesis by (simp only: step)
  qed
qed


lemma short_batches_loop_ok:
  "None \<notin> set (answers cl (length (issued s)) (concat bs)) \<Longrightarrow>
   short_batches_loop cl bs s far =
     (s\<lparr>issued := issued s @ map (\<lambda>(k, v). task_request v) (concat bs),
         written := written s
           @ map (\<lambda>t. (SHORT_ANALYSIS_MD, t @ ''\<newline>''))
               (filter (\<lambda>t. \<not> str_in NO_CHANGES t)
                  (map (\<lambda>(k, r). format_title k r)
                     (zip (map fst (concat bs))
                        (map the (answers cl (length (issued s)) (concat bs))))))\<rparr>,
      Inr (far @ filter (\<lambda>t. \<not> str_in NO_CHANGES t)
                   (map (\<lambda>(k, r). format_title k r)
                      (zip (map fst (concat bs))
                         (map the (answers cl (length (issued s)) (concat bs)))))))"
proof (induction bs arbitrary: s far)
  case Nil
  then show ?case by simp
next
  case (Cons b bs)
  let ?n = "length (issued s)"
  let ?s1 = "s\<lparr>issued := issued s @ map (\<lambda>(k, v). task_request v) b\<rparr>"
  let ?ts = "filter (\<lambda>t. \<not> str_in NO_CHANGES t)
               (map (\<lambda>(k, r). format_title k r) (zip (map fst b) (map the (answers cl ?n b))))"
  let ?s2 = "?s1\<lparr>written := written ?s1 @ map (\<lambda>t. (SHORT_ANALYSIS_MD, t @ ''\<newline>'')) ?ts\<rparr>"
  from Cons.prems have ok1: "None \<notin> set (answers cl ?n b)"
    and ok2: "None \<notin> set (answers cl (?n + length b) (concat bs))"
    by (simp_all add: answers_append)
  have len: "length (issued ?s2) = ?n + length b" by simp
  have step: "short_batches_loop cl (b # bs) s far = short_batches_loop cl bs ?s2 (far @ ?ts)"
    using ok1 by (simp add: process_batch_eq short_results_loop_eq)
  from ok2 have "None \<notin> set (answers cl (length (issued ?s2)) (concat bs))"
    by simp
  from Cons.IH [OF this, of "far @ ?ts"] show ?case
    unfolding step len
    by (simp add: answers_append length_answers)
qed


lemma keys_dict_set:
  "map fst (dict_set d k v) = (if k \<in> fst ` set d then map fst d else map fst d @ [k])"
proof (induction d)
  case Nil
  then show ?case by simp
next
  case (Cons p d)
  obtain k' v' where p: "p = (k', v')" by (cases p)
  show ?case
  proof (cases "k' = k")
    case True
    then show ?thesis by (simp add: p)
  next
    case False
    then show ?thesis using Cons.IH by (simp add: p)
  qed
qed

lemma distinct_dict_set: "distinct (map fst d) \<Longrightarrow> distinct (map fst (dict_set d k v))"
  by (simp add: keys_dict_set)

lemma distinct_foldl_dict_set:
  "distinct (map fst d) \<Longrightarrow>
   distinct (map fst (foldl (\<lambda>d (k, r). dict_set d k (g k r)) d rs))"
proof (induction rs arbitrary: d)
  case Nil
  then show ?case by simp
next
  case (Cons p rs)
  obtain k r where p: "p = (k, r)" by (cases p)
  from Cons.prems have "distinct (map fst (dict_set d k (g k r)))" by (rule distinct_dict_set)
  from Cons.IH [OF this] show ?case by (simp add: p)
qed

lemma foldl_dict_set_fresh:
  "distinct (map fst d @ map fst rs) \<Longrightarrow>
   foldl (\<lambda>d (k, r). dict_set d k (g k r)) d rs = d @ map (\<lambda>(k, r). (k, g k r)) rs"
proof (induction rs arbitrary: d)
  case Nil
  then show ?case by simp
next
  case (Cons p rs)
  obtain k r where p: "p = (k, r)" by (cases p)
  from Cons.prems have fresh: "k \<notin> fst ` set d" by (auto simp: p)
  from Cons.prems have "distinct (map fst (d @ [(k, g k r)]) @ map fst rs)" by (simp add: p)
  from Cons.IH [OF this] show ?case by (simp add: p dict_set_fresh [OF fresh])
qed

lemma dict_to_batches_concat:
  assumes "1 \<le> c" and "distinct (map fst M)"
  shows "\<exists>bs. dict_to_batches M c = Inr bs \<and> concat bs = M"
proof -
  let ?n = "range_len (int (length M)) c"
  have "concat (batches_loop ?n (nat c) M) = take (?n * nat c) M"
    by (rule concat_batches_loop [OF assms(2)])
  then have "concat (batches_loop ?n (nat c) M) = M"
    using range_len_covers [OF assms(1), of "length M"] by simp
  then show ?thesis using assms(1) by (simp add: dict_to_batches_def)
qed

lemma answers_Some_length: "answers cl n M = map Some ts \<Longrightarrow> length ts = length M"
  using length_answers [of cl n M] by simp

lemma detail_phase_ok:
  assumes "1 \<le> c" and "distinct (map fst M)"
    and "answers cl (length (issued s)) M = map Some ts"
  shows "detail_phase cl c M s =
     (s\<lparr>issued := issued s @ map (\<lambda>(k, v). task_request v) M,
         written := written s
           @ map (\<lambda>(k, t). (DETAIL_ANALYSIS_MD, format_title k t @ ''\<newline>''))
               (zip (map fst M) ts)\<rparr>,
      Inr (map (\<lambda>(k, t). (k, format_title k t)) (zip (map fst M) ts)))"
proof -
  from dict_to_batches_concat [OF assms(1,2)]
  obtain bs where bs: "dict_to_batches M c = Inr bs" and cat: "concat bs = M" by blast
  have ok: "None \<notin> set (answers cl (length (issued s)) (concat bs))"
    by (auto simp: cat assms(3))
  have the_ts: "map the (answers cl (length (issued s)) M) = ts"
    by (simp add: assms(3) comp_def)
  have len: "length ts = length M" using assms(3) by (rule answers_Some_length)
  have "distinct (map fst ([] :: (string \<times> string) list) @ map fst (zip (map fst M) ts))"
    using assms(2) len by (simp add: map_fst_zip)
  then have fold: "foldl (\<lambda>d (k, r). dict_set d k (format_title k r)) [] (zip (map fst M) ts)
      = map (\<lambda>(k, t). (k, format_title k t)) (zip (map fst M) ts)"
    using foldl_dict_set_fresh [of "[]" "zip (map fst M) ts" format_title] by simp
  show ?thesis
    by (simp add: detail_phase_def bs detail_batches_loop_ok [OF ok] cat the_ts fold)
qed

lemma short_phase_ok:
  assumes "1 \<le> c" and "distinct (map fst M)"
    and "answers cl (length (issued s)) M = map Some ts"
  shows "short_phase cl c M s =
     (s\<lparr>issued := issued s @ map (\<lambda>(k, v). task_request v) M,
         written := written s
           @ map (\<lambda>t. (SHORT_ANALYSIS_MD, t @ ''\<newline>''))
               (filter (\<lambda>t. \<not> str_in NO_CHANGES t)
                  (map (\<lambda>(k, r). format_title k r) (zip (map fst M) ts)))\<rparr>,
      Inr (filter (\<lambda>t. \<not> str_in NO_CHANGES t)
             (map (\<lambda>(k, r). format_title k r) (zip (map fst M) ts))))"
proof -
  from dict_to_batches_concat [OF assms(1,2)]
  obtain bs where bs: "dict_to_batches M c = Inr bs" and cat: "concat bs = M" by blast
  have ok: "None \<notin> set (answers cl (length (issued s)) (concat bs))"
    by (auto simp: cat assms(3))
  have the_ts: "map the (answers cl (length (issued s)) M) = ts"
    by (simp add: assms(3) comp_def)
  show ?thesis
    by (simp add: short_phase_def bs short_batches_loop_ok [OF ok] cat the_ts)
qed

lemma detail_phase_fail:
  assumes "1 \<le> c" and "distinct (map fst M)"
    and "None \<in> set (answers cl (length (issued s)) M)"
  shows "snd (detail_phase cl c M s) = Inl ServiceError"
proof -
  from dict_to_batches_concat [OF assms(1,2)]
  obtain bs where bs: "dict_to_batches M c = Inr bs" and cat: "concat bs = M" by blast
  from assms(3) have "None \<in> set (answers cl (length (issued s)) (concat bs))"
    by (simp add: cat)
  then show ?thesis by (simp add: detail_phase_def bs detail_batches_loop_fail)
qed




subsection \<open>Building the prompts\<close>

lemma replicate_marker: "replicate 30 (CHR ''-'') = ''------------------------------''"
  by (simp add: eval_nat_numeral)

lemma read_file_content_rel: "snd (read_file_content e f dir b) = relpath e f dir"
  by (simp add: read_file_content_def Let_def split: option.splits)

lemma read_file_content_unreadable:
  "read_text e f = None \<Longrightarrow>
   read_file_content e f dir b =
     ((replicate 30 (CHR ''-'') @ '' '' @ relpath e f dir @ '' '' @ replicate 30 (CHR ''-'')
         @ ''\<newline>'') @ CANT_READ_FILE_MES @ ''\<newline>'',
      relpath e f dir)"
  by (simp add: read_file_content_def Let_def)

lemma read_file_content_readable:
  "read_text e f = Some txt \<Longrightarrow>
   read_file_content e f dir False =
     ((replicate 30 (CHR ''-'') @ '' '' @ relpath e f dir @ '' '' @ replicate 30 (CHR ''-'')
         @ ''\<newline>'') @ txt @ ''\<newline>'',
      relpath e f dir)"
  by (simp add: read_file_content_def Let_def)

lemma unreadable_marked:
  "read_text e f = None \<Longrightarrow> str_in CANT_READ_FILE_MES (fst (read_file_content e f dir b))"
  unfolding str_in_def by (simp only: read_file_content_unreadable fst_conv sublist_appendI)

lemma detail_prompts_loop_eq:
  "detail_prompts_loop e dir dp fs d =
     foldl (\<lambda>d (k, v). dict_set d k v) d
       (map (\<lambda>f. (relpath e f dir,
                   [to_openai_system_message dp,
                    to_openai_user_message (fst (read_file_content e f dir False))]))
          (filter (\<lambda>f. \<not> str_in CANT_READ_FILE_MES (fst (read_file_content e f dir False)))
             fs))"
proof (induction fs arbitrary: d)
  case Nil
  then show ?case by simp
next
  case (Cons f fs)
  show ?case
    using read_file_content_rel [of e f dir False]
    by (cases "read_file_content e f dir False") (simp add: Cons.IH)
qed

lemma detail_prompts_eq:
  assumes "distinct (map (\<lambda>f. relpath e f dir) fs)"
  shows "detail_prompts e dir dp fs =
     map (\<lambda>f. (relpath e f dir,
                 [to_openai_system_message dp,
                  to_openai_user_message (fst (read_file_content e f dir False))]))
       (filter (\<lambda>f. \<not> str_in CANT_READ_FILE_MES (fst (read_file_content e f dir False))) fs)"
proof -
  let ?keep = "filter (\<lambda>f. \<not> str_in CANT_READ_FILE_MES (fst (read_file_content e f dir False))) fs"
  let ?kv = "map (\<lambda>f. (relpath e f dir,
                 [to_openai_system_message dp,
                  to_openai_user_message (fst (read_file_content e f dir False))])) ?keep"
  have "map fst ?kv = map (\<lambda>f. relpath e f dir) ?keep" by (simp add: comp_def)
  moreover have "distinct (map (\<lambda>f. relpath e f dir) ?keep)"
    using assms by (rule distinct_map_filter)
  ultimately have "distinct (map fst ?kv)" by (simp only:)
  then have "distinct (map fst ([] :: (string \<times> message list) list) @ map fst ?kv)" by simp
  from foldl_dict_set_fresh [OF this, of "\<lambda>k v. v"]
  show ?thesis by (simp add: detail_prompts_def detail_prompts_loop_eq case_prod_unfold)
qed


lemma short_prompts_loop_eq:
  "short_prompts_loop sp kvs d =
     foldl (\<lambda>d (k, val). dict_set d k
              [to_openai_system_message sp, to_openai_system_message val]) d kvs"
proof (induction kvs arbitrary: d)
  case Nil
  then show ?case by simp
next
  case (Cons p kvs)
  obtain k val where p: "p = (k, val)" by (cases p)
  show ?case by (simp add: p Cons.IH)
qed

lemma short_prompts_eq:
  assumes "distinct (map fst R)"
  shows "short_prompts sp R =
     map (\<lambda>(k, val). (k, [to_openai_system_message sp, to_openai_system_message val])) R"
proof -
  from assms have "distinct (map fst ([] :: (string \<times> message list) list) @ map fst R)"
    by simp
  from foldl_dict_set_fresh [OF this,
      of "\<lambda>k val. [to_openai_system_message sp, to_openai_system_message val]"]
  show ?thesis by (simp add: short_prompts_def short_prompts_loop_eq)
qed

lemma detail_batches_loop_distinct:
  "distinct (map fst d) \<Longrightarrow> detail_batches_loop cl bs s d = (s', Inr d') \<Longrightarrow>
   distinct (map fst d')"
proof (induction bs arbitrary: s d)
  case Nil
  then show ?case by simp
next
  case (Cons b bs)
  let ?n = "length (issued s)"
  show ?case
  proof (cases "None \<in> set (answers cl ?n b)")
    case True
    with Cons.prems(2) show ?thesis by (simp add: process_batch_eq)
  next
    case False
    let ?s1 = "s\<lparr>issued := issued s @ map (\<lambda>(k, v). task_request v) b\<rparr>"
    let ?rs = "zip (map fst b) (map the (answers cl ?n b))"
    let ?s2 = "?s1\<lparr>written := written ?s1
               @ map (\<lambda>(k, r). (DETAIL_ANALYSIS_MD, format_title k r @ ''\<newline>'')) ?rs\<rparr>"
    let ?d2 = "foldl (\<lambda>d (k, r). dict_set d k (format_title k r)) d ?rs"
    have step: "detail_batches_loop cl (b # bs) s d = detail_batches_loop cl bs ?s2 ?d2"
      using False by (simp add: process_batch_eq detail_results_loop_eq)
    have "distinct (map fst ?d2)" using Cons.prems(1) by (rule distinct_foldl_dict_set)
    moreover from Cons.prems(2) have "detail_batches_loop cl bs ?s2 ?d2 = (s', Inr d')"
      by (simp only: step)
    ultimately show ?thesis by (rule Cons.IH)
  qed
qed

lemma detail_phase_distinct:
  assumes "detail_phase cl c M s = (s', Inr R)"
  shows "distinct (map fst R)"
proof (cases "dict_to_batches M c")
  case (Inl err)
  with assms show ?thesis by (simp add: detail_phase_def)
next
  case (Inr bs)
  with assms have "detail_batches_loop cl bs s [] = (s', Inr R)" by (simp add: detail_phase_def)
  with detail_batches_loop_distinct [of "[]" cl bs s s' R] show ?thesis by simp
qed

subsection \<open>Determinism and the requests of a run\<close>

lemma answers_deterministic:
  assumes "\<forall>i j rq rq'. messages rq = messages rq' \<and> seed rq = seed rq' \<longrightarrow> cl i rq = cl j rq'"
  shows "answers cl n b = answers cl m b"
proof (induction b arbitrary: n m)
  case Nil
  then show ?case by simp
next
  case (Cons p b)
  obtain k v where p: "p = (k, v)" by (cases p)
  have "cl n (task_request v) = cl m (task_request v)" using assms by blast
  with Cons.IH [of "Suc n" "Suc m"] show ?case by (simp add: p)
qed

lemma detail_batches_loop_deterministic:
  assumes "\<And>n m b. answers cl n b = answers cl m b"
  shows "snd (detail_batches_loop cl bs s1 d) = snd (detail_batches_loop cl bs s2 d)"
proof (induction bs arbitrary: s1 s2 d)
  case Nil
  then show ?case by simp
next
  case (Cons b bs)
  let ?a = "answers cl (length (issued s1)) b"
  have a2: "answers cl (length (issued s2)) b = ?a" by (rule assms)
  show ?case
  proof (cases "None \<in> set ?a")
    case True
    then show ?thesis by (simp add: process_batch_eq a2)
  next
    case False
    let ?rs = "zip (map fst b) (map the ?a)"
    let ?d2 = "foldl (\<lambda>d (k, r). dict_set d k (format_title k r)) d ?rs"
    let ?w = "map (\<lambda>(k, r). (DETAIL_ANALYSIS_MD, format_title k r @ ''\<newline>'')) ?rs"
    let ?t1 = "s1\<lparr>issued := issued s1 @ map (\<lambda>(k, v). task_request v) b,
                  written := written s1 @ ?w\<rparr>"
    let ?t2 = "s2\<lparr>issued := issued s2 @ map (\<lambda>(k, v). task_request v) b,
                  written := written s2 @ ?w\<rparr>"
    have step1: "detail_batches_loop cl (b # bs) s1 d = detail_batches_loop cl bs ?t1 ?d2"
      using False by (simp add: process_batch_eq detail_results_loop_eq)
    have step2: "detail_batches_loop cl (b # bs) s2 d = detail_batches_loop cl bs ?t2 ?d2"
      using False by (simp add: process_batch_eq detail_results_loop_eq a2)
    show ?thesis unfolding step1 step2 by (rule Cons.IH)
  qed
qed

lemma detail_phase_deterministic:
  assumes "\<forall>i j rq rq'. messages rq = messages rq' \<and> seed rq = seed rq' \<longrightarrow> cl i rq = cl j rq'"
  shows "snd (detail_phase cl c M s1) = snd (detail_phase cl c M s2)"
proof (cases "dict_to_batches M c")
  case (Inl err)
  then show ?thesis by (simp add: detail_phase_def)
next
  case (Inr bs)
  have "snd (detail_batches_loop cl bs s1 []) = snd (detail_batches_loop cl bs s2 [])"
    by (rule detail_batches_loop_deterministic) (rule answers_deterministic [OF assms])
  then show ?thesis by (simp add: detail_phase_def Inr)
qed

lemma detail_batches_loop_issued:
  "\<exists>new. issued (fst (detail_batches_loop cl bs s d)) = issued s @ new
         \<and> set new \<subseteq> range task_request"
proof (induction bs arbitrary: s d)
  case Nil
  then show ?case by simp
next
  case (Cons b bs)
  let ?n = "length (issued s)"
  let ?new = "map (\<lambda>(k, v). task_request v) b"
  have new: "set ?new \<subseteq> range task_request" by auto
  show ?case
  proof (cases "None \<in> set (answers cl ?n b)")
    case True
    then have "issued (fst (detail_batches_loop cl (b # bs) s d)) = issued s @ ?new"
      by (simp add: process_batch_eq)
    with new show ?thesis by blast
  next
    case False
    let ?s1 = "s\<lparr>issued := issued s @ ?new\<rparr>"
    let ?rs = "zip (map fst b) (map the (answers cl ?n b))"
    let ?s2 = "?s1\<lparr>written := written ?s1
               @ map (\<lambda>(k, r). (DETAIL_ANALYSIS_MD, format_title k r @ ''\<newline>'')) ?rs\<rparr>"
    let ?d2 = "foldl (\<lambda>d (k, r). dict_set d k (format_title k r)) d ?rs"
    have step: "detail_batches_loop cl (b # bs) s d = detail_batches_loop cl bs ?s2 ?d2"
      using False by (simp add: process_batch_eq detail_results_loop_eq)
    from Cons.IH [of ?s2 ?d2] obtain new' where
      "issued (fst (detail_batches_loop cl bs ?s2 ?d2)) = issued ?s2 @ new'"
      "set new' \<subseteq> range task_request" by blast
    then have "issued (fst (detail_batches_loop cl (b # bs) s d)) = issued s @ (?new @ new')"
      "set (?new @ new') \<subseteq> range task_request"
      unfolding step using new by simp_all
    then show ?thesis by blast
  qed
qed

lemma short_batches_loop_issued:
  "\<exists>new. issued (fst (short_batches_loop cl bs s far)) = issued s @ new
         \<and> set new \<subseteq> range task_request"
proof (induction bs arbitrary: s far)
  case Nil
  then show ?case by simp
next
  case (Cons b bs)
  let ?n = "length (issued s)"
  let ?new = "map (\<lambda>(k, v). task_request v) b"
  have new: "set ?new \<subseteq> range task_request" by auto
  show ?case
  proof (cases "None \<in> set (answers cl ?n b)")
    case True
    then have "issued (fst (short_batches_loop cl (b # bs) s far)) = issued s @ ?new"
      by (simp add: process_batch_eq)
    with new show ?thesis by blast
  next
    case False
    let ?s1 = "s\<lparr>issued := issued s @ ?new\<rparr>"
    let ?ts = "filter (\<lambda>t. \<not> str_in NO_CHANGES t)
               (map (\<lambda>(k, r). format_title k r) (zip (map fst b) (map the (answers cl ?n b))))"
    let ?s2 = "?s1\<lparr>written := written ?s1 @ map (\<lambda>t. (SHORT_ANALYSIS_MD, t @ ''\<newline>'')) ?ts\<rparr>"
    have step: "short_batches_loop cl (b # bs) s far = short_batches_loop cl bs ?s2 (far @ ?ts)"
      using False by (simp add: process_batch_eq short_results_loop_eq)
    from Cons.IH [of ?s2 "far @ ?ts"] obtain new' where
      "issued (fst (short_batches_loop cl bs ?s2 (far @ ?ts))) = issued ?s2 @ new'"
      "set new' \<subseteq> range task_request" by blast
    then have "issued (fst (short_batches_loop cl (b # bs) s far)) = issued s @ (?new @ new')"
      "set (?new @ new') \<subseteq> range task_request"
      unfolding step using new by simp_all
    then show ?thesis by blast
  qed
qed

lemma detail_phase_issued:
  "\<exists>new. issued (fst (detail_phase cl c M s)) = issued s @ new \<and> set new \<subseteq> range task_request"
proof (cases "dict_to_batches M c")
  case (Inl err)
  then show ?thesis by (simp add: detail_phase_def)
next
  case (Inr bs)
  with detail_batches_loop_issued [of cl bs s "[]"] show ?thesis by (simp add: detail_phase_def)
qed

lemma short_phase_issued:
  "\<exists>new. issued (fst (short_phase cl c M s)) = issued s @ new \<and> set new \<subseteq> range task_request"
proof (cases "dict_to_batches M c")
  case (Inl err)
  then show ?thesis by (simp add: short_phase_def)
next
  case (Inr bs)
  with short_batches_loop_issued [of cl bs s "[]"] show ?thesis by (simp add: short_phase_def)
qed

lemma project_phase_eq:
  "project_phase cl pp far s =
     (s\<lparr>issued := issued s @ [task_request (project_messages pp far)]\<rparr>,
      case cl (length (issued s)) (task_request (project_messages pp far)) of
        None \<Rightarrow> Inl ServiceError
      | Some text \<Rightarrow> Inr text)"
  by (simp add: project_phase_def openai_request_def task_request_def Let_def)


lemma main_after_phases:
  fixes cl :: client and e :: env and local_path tree :: string and s :: state
  defines "dp \<equiv> fst (read_file_content e (DETAIL_ANALYSIS_PROMPT local_path) local_path True)"
    and "sp \<equiv> fst (read_file_content e (SHORT_ANALYSIS_PROMPT local_path) local_path True)"
    and "pp \<equiv> fst (read_file_content e (PROJECT_ANALYSIS_PROMPT local_path) local_path True)"
    and "s0 \<equiv> write_to_md DETAIL_ANALYSIS_MD
                 (MD_TITLE @ ''Project tree:\<newline>```\<newline>'' @ tree @ ''```\<newline>'') s"
  assumes "detail_phase cl NUMBER_OF_CONCURRENT_REQUESTS
             (detail_prompts e directory dp project_files) s0 = (s1, Inr R)"
    and "short_phase cl NUMBER_OF_CONCURRENT_REQUESTS (short_prompts sp R) s1 = (s2, Inr far)"
  shows "main cl e local_path directory tree project_files s =
     (case cl (length (issued s2)) (task_request (project_messages pp far)) of
        None \<Rightarrow>
          (s2\<lparr>issued := issued s2 @ [task_request (project_messages pp far)]\<rparr>,
           Inl ServiceError)
      | Some text \<Rightarrow>
          (s2\<lparr>issued := issued s2 @ [task_request (project_messages pp far)],
              written := written s2 @ [(PROJECT_ANALYSIS_MD, text @ ''\<newline>'')]\<rparr>,
           Inr ()))"
  using assms(5,6) unfolding dp_def sp_def pp_def s0_def
  by (simp add: main_def Let_def project_phase_eq write_to_md_def split: option.splits)

lemma main_issued:
  "\<exists>new. issued (fst (main cl e local_path directory tree project_files s)) = issued s @ new
         \<and> set new \<subseteq> range task_request"
proof -
  let ?dp = "fst (read_file_content e (DETAIL_ANALYSIS_PROMPT local_path) local_path True)"
  let ?sp = "fst (read_file_content e (SHORT_ANALYSIS_PROMPT local_path) local_path True)"
  let ?pp = "fst (read_file_content e (PROJECT_ANALYSIS_PROMPT local_path) local_path True)"
  let ?s0 = "write_to_md DETAIL_ANALYSIS_MD
                 (MD_TITLE @ ''Project tree:\<newline>```\<newline>'' @ tree @ ''```\<newline>'') s"
  let ?D = "detail_prompts e directory ?dp project_files"
  let ?main = "main cl e local_path directory tree project_files s"
  obtain s1 r1 where d: "detail_phase cl NUMBER_OF_CONCURRENT_REQUESTS ?D ?s0 = (s1, r1)"
    by (cases "detail_phase cl NUMBER_OF_CONCURRENT_REQUESTS ?D ?s0")
  from detail_phase_issued [of cl NUMBER_OF_CONCURRENT_REQUESTS ?D ?s0] d
  obtain new1 where n1: "issued s1 = issued s @ new1" "set new1 \<subseteq> range task_request"
    by (auto simp: write_to_md_def)
  show ?thesis
  proof (cases r1)
    case (Inl err)
    with d have "?main = (s1, Inl err)" by (simp add: main_def Let_def)
    with n1 show ?thesis by auto
  next
    case (Inr R)
    note dR = d [unfolded Inr]
    obtain s2 r2 where sh: "short_phase cl NUMBER_OF_CONCURRENT_REQUESTS (short_prompts ?sp R) s1
        = (s2, r2)"
      by (cases "short_phase cl NUMBER_OF_CONCURRENT_REQUESTS (short_prompts ?sp R) s1")
    from short_phase_issued [of cl NUMBER_OF_CONCURRENT_REQUESTS "short_prompts ?sp R" s1] sh
    obtain new2 where n2: "issued s2 = issued s1 @ new2" "set new2 \<subseteq> range task_request"
      by auto
    show ?thesis
    proof (cases r2)
      case (Inl err)
      with dR sh have "?main = (s2, Inl err)" by (simp add: main_def Let_def)
      with n1 n2 have "issued (fst ?main) = issued s @ (new1 @ new2)"
        "set (new1 @ new2) \<subseteq> range task_request" by auto
      then show ?thesis by blast
    next
      case (Inr far)
      note shF = sh [unfolded Inr]
      let ?rq = "task_request (project_messages ?pp far)"
      from main_after_phases [OF dR shF]
      have "issued (fst ?main) = issued s2 @ [?rq]" by (simp split: option.splits)
      with n1 n2 have "issued (fst ?main) = issued s @ (new1 @ new2 @ [?rq])"
        "set (new1 @ new2 @ [?rq]) \<subseteq> range task_request" by auto
      then show ?thesis by blast
    qed
  qed
qed

text \<open>
  Claim C9. Let the service be deterministic: requests with the same messages and the
  same seed get the same outcome, whenever they are issued. Then two runs of the detail
  phase on the same mapping with the same batch size, started in any two states (the
  second, say, after the first), return the same result. Every request that the detail
  phase issues, and every request that a run of \<^verbatim>\<open>main\<close> issues, carries the seed
  \<^verbatim>\<open>SEED\<close>.
\<close>

theorem detail_phase_idempotent:
  assumes "\<forall>i j rq rq'. messages rq = messages rq' \<and> seed rq = seed rq' \<longrightarrow> cl i rq = cl j rq'"
  shows "snd (detail_phase cl c M s1) = snd (detail_phase cl c M s2)
       \<and> (\<exists>new. issued (fst (detail_phase cl c M s1)) = issued s1 @ new
                \<and> (\<forall>rq \<in> set new. seed rq = Some SEED))
       \<and> (\<exists>new. issued (fst (main cl e local_path directory tree project_files s1))
                  = issued s1 @ new
                \<and> (\<forall>rq \<in> set new. seed rq = Some SEED))"
proof -
  have seed: "\<forall>rq \<in> set new. seed rq = Some SEED" if "set new \<subseteq> range task_request" for new
    using that by (auto simp: task_request_def)
  from detail_phase_issued [of cl c M s1] seed
  have a: "\<exists>new. issued (fst (detail_phase cl c M s1)) = issued s1 @ new
                \<and> (\<forall>rq \<in> set new. seed rq = Some SEED)" by blast
  from main_issued [of cl e local_path directory tree project_files s1] seed
  have b: "\<exists>new. issued (fst (main cl e local_path directory tree project_files s1))
                  = issued s1 @ new
                \<and> (\<forall>rq \<in> set new. seed rq = Some SEED)" by blast
  from detail_phase_deterministic [OF assms] a b show ?thesis by blast
qed

theorem detail_phase_idempotent_witness:
  "snd (detail_phase echo_client 2 example_prompts example_state)
     = snd (detail_phase echo_client 2 example_prompts busy_state)
   \<and> snd (detail_phase echo_client 2 example_prompts busy_state)
     = Inr [(''a.py'', format_title ''a.py'' ''print(1)''),
            (''b.py'', format_title ''b.py'' ''print(2)''),
            (''c.py'', format_title ''c.py'' ''print(3)'')]
   \<and> issued example_state \<noteq> issued busy_state"
proof -
  have det: "\<forall>i j rq rq'. messages rq = messages rq' \<and> seed rq = seed rq'
      \<longrightarrow> echo_client i rq = echo_client j rq'"
    by (simp add: echo_client_def)
  have c: "(1::int) \<le> 2" by simp
  have d: "distinct (map fst example_prompts)" by (simp add: example_prompts_def)
  have a: "answers echo_client (length (issued busy_state)) example_prompts
       = map Some [''print(1)'', ''print(2)'', ''print(3)'']"
    by (simp add: example_prompts_def busy_state_def echo_client_def task_request_def
        to_openai_user_message_def to_openai_system_message_def)
  have run: "snd (detail_phase echo_client 2 example_prompts busy_state)
     = Inr [(''a.py'', format_title ''a.py'' ''print(1)''),
            (''b.py'', format_title ''b.py'' ''print(2)''),
            (''c.py'', format_title ''c.py'' ''print(3)'')]"
    using detail_phase_ok [OF c d a] by (simp add: example_prompts_def)
  from detail_phase_idempotent [OF det, of 2 example_prompts example_state busy_state]
  have "snd (detail_phase echo_client 2 example_prompts example_state)
     = snd (detail_phase echo_client 2 example_prompts busy_state)" by blast
  with run show ?thesis by (simp add: example_state_def busy_state_def)
qed

subsection \<open>The project phase\<close>

lemma detail_phase_empty:
  "detail_phase cl NUMBER_OF_CONCURRENT_REQUESTS [] s = (s, Inr [])"
  by (simp add: detail_phase_def dict_to_batches_def range_len_def
      NUMBER_OF_CONCURRENT_REQUESTS_def)

lemma short_phase_empty:
  "short_phase cl NUMBER_OF_CONCURRENT_REQUESTS [] s = (s, Inr [])"
  by (simp add: short_phase_def dict_to_batches_def range_len_def
      NUMBER_OF_CONCURRENT_REQUESTS_def)

lemma detail_prompts_unreadable:
  assumes "\<forall>f \<in> set fs. read_text e f = None"
  shows "detail_prompts e dir dp fs = []"
proof -
  have "filter (\<lambda>f. \<not> str_in CANT_READ_FILE_MES (fst (read_file_content e f dir False))) fs = []"
    using assms by (simp add: unreadable_marked filter_empty_conv)
  then show ?thesis by (simp add: detail_prompts_def detail_prompts_loop_eq)
qed

lemma run_env_prompts:
  "fst (read_file_content run_env (DETAIL_ANALYSIS_PROMPT ''lp'') ''lp'' True) = ''text\<newline>''"
  "fst (read_file_content run_env (SHORT_ANALYSIS_PROMPT ''lp'') ''lp'' True) = ''text\<newline>''"
  "fst (read_file_content run_env (PROJECT_ANALYSIS_PROMPT ''lp'') ''lp'' True) = ''text\<newline>''"
  by (simp_all add: run_env_def read_file_content_def Let_def DETAIL_ANALYSIS_PROMPT_def
      SHORT_ANALYSIS_PROMPT_def PROJECT_ANALYSIS_PROMPT_def)

lemma run_env_detail_prompts:
  "detail_prompts run_env ''.'' ''text\<newline>'' [''a.py'', ''b.py'']
     = [(''a.py'', [to_openai_system_message ''text\<newline>'', to_openai_user_message a_text])]"
  by (simp add: detail_prompts_def run_env_def read_file_content_def Let_def str_in_def
      CANT_READ_FILE_MES_def sublist_code replicate_marker a_text_def)

lemma run_env_short_prompts:
  "short_prompts ''text\<newline>'' [(''a.py'', r)]
     = [(''a.py'', [to_openai_system_message ''text\<newline>'', to_openai_system_message r])]"
  by (simp add: short_prompts_def)

lemma number_pos: "1 \<le> NUMBER_OF_CONCURRENT_REQUESTS"
  by (simp add: NUMBER_OF_CONCURRENT_REQUESTS_def)

subsection \<open>A failing request\<close>



subsection \<open>Results of a stage\<close>

text \<open>
  Claim C1 fails on the code. With batches of one, the first request of a mapping of
  two is answered and the second fails: the first result is written to the report, and
  the phase ends with the error and returns no result mapping.
\<close>

theorem stage_without_result_counterexample:
  "example_batch \<noteq> [] \<and> (1::int) \<le> 1
   \<and> map fst example_batch = [''a.py'', ''b.py'']
   \<and> detail_phase failing_client 1 example_batch example_state
       = (\<lparr>issued = [task_request (snd (example_batch ! 0)),
                      task_request (snd (example_batch ! 1))],
           written = [(''detail_analysis.md'', ''## a.py\<newline>\<newline>fine\<newline>'')]\<rparr>,
          Inl ServiceError)"
  by (simp add: example_batch_def failing_client_def example_state_def task_request_def
      to_openai_user_message_def to_openai_system_message_def detail_phase_def
      dict_to_batches_def range_len_def dict_of_def task_def openai_request_def
      format_title_def MD_TITLE_def write_to_md_def DETAIL_ANALYSIS_MD_def)

text \<open>
  Claim C1 as amended. For a mapping \<open>M\<close> (distinct keys) and a batch size \<open>c \<ge> 1\<close>:
  when the service answers every request of the stage (with the texts \<open>ts\<close>, in the
  order of \<open>M\<close>), the detail phase returns a result mapping whose identifiers are those
  of \<open>M\<close>, each exactly once and in the order of \<open>M\<close>, the value of an identifier
  being its answer under its title; when a request of the stage fails, the phase raises
  the service error and returns no result mapping.
\<close>

theorem detail_phase_identifiers:
  assumes "1 \<le> c" and "distinct (map fst M)"
  shows "(answers cl (length (issued s)) M = map Some ts \<longrightarrow>
            (\<exists>s' R. detail_phase cl c M s = (s', Inr R)
               \<and> map fst R = map fst M \<and> distinct (map fst R)
               \<and> R = map (\<lambda>(k, t). (k, ''## '' @ k @ ''\<newline>\<newline>'' @ t))
                       (zip (map fst M) ts)))
       \<and> (None \<in> set (answers cl (length (issued s)) M) \<longrightarrow>
            snd (detail_phase cl c M s) = Inl ServiceError)"
proof (intro conjI impI)
  assume a: "answers cl (length (issued s)) M = map Some ts"
  have len: "length ts = length M" using a by (rule answers_Some_length)
  let ?R = "map (\<lambda>(k, t). (k, ''## '' @ k @ ''\<newline>\<newline>'' @ t)) (zip (map fst M) ts)"
  have "map fst ?R = map fst (zip (map fst M) ts)" by (simp add: case_prod_unfold)
  also have "\<dots> = map fst M" using len by (simp add: map_fst_zip)
  finally have keys: "map fst ?R = map fst M" .
  with assms(2) have d: "distinct (map fst ?R)" by simp
  have "detail_phase cl c M s
      = (s\<lparr>issued := issued s @ map (\<lambda>(k, v). task_request v) M,
            written := written s
              @ map (\<lambda>(k, t). (DETAIL_ANALYSIS_MD, format_title k t @ ''\<newline>''))
                  (zip (map fst M) ts)\<rparr>,
         Inr ?R)"
    using detail_phase_ok [OF assms a] by (simp add: format_title_def MD_TITLE_def)
  with keys d show "\<exists>s' R. detail_phase cl c M s = (s', Inr R)
               \<and> map fst R = map fst M \<and> distinct (map fst R)
               \<and> R = ?R" by blast
next
  assume "None \<in> set (answers cl (length (issued s)) M)"
  with assms show "snd (detail_phase cl c M s) = Inl ServiceError" by (rule detail_phase_fail)
qed

theorem detail_phase_identifiers_witness:
  "(1::int) \<le> 2 \<and> distinct (map fst example_prompts)
   \<and> answers echo_client (length (issued example_state)) example_prompts
       = map Some [''print(1)'', ''print(2)'', ''print(3)'']
   \<and> snd (detail_phase echo_client 2 example_prompts example_state)
       = Inr [(''a.py'', ''## a.py\<newline>\<newline>print(1)''),
              (''b.py'', ''## b.py\<newline>\<newline>print(2)''),
              (''c.py'', ''## c.py\<newline>\<newline>print(3)'')]
   \<and> distinct (map fst example_batch)
   \<and> None \<in> set (answers failing_client (length (issued example_state)) example_batch)
   \<and> snd (detail_phase failing_client 2 example_batch example_state) = Inl ServiceError"
proof -
  have c: "(1::int) \<le> 2" by simp
  have d: "distinct (map fst example_prompts)" by (simp add: example_prompts_def)
  have a: "answers echo_client (length (issued example_state)) example_prompts
       = map Some [''print(1)'', ''print(2)'', ''print(3)'']"
    by (simp add: example_prompts_def example_state_def echo_client_def task_request_def
        to_openai_user_message_def to_openai_system_message_def)
  have d2: "distinct (map fst example_batch)" by (simp add: example_batch_def)
  have f: "None \<in> set (answers failing_client (length (issued example_state)) example_batch)"
    by (simp add: example_batch_def failing_client_def example_state_def task_request_def
        to_openai_user_message_def to_openai_system_message_def)
  from detail_phase_identifiers [OF c d, of echo_client example_state
      "[''print(1)'', ''print(2)'', ''print(3)'']"] a
  have one: "snd (detail_phase echo_client 2 example_prompts example_state)
       = Inr (map (\<lambda>(k, t). (k, ''## '' @ k @ ''\<newline>\<newline>'' @ t))
               (zip (map fst example_prompts) [''print(1)'', ''print(2)'', ''print(3)'']))"
    by auto
  from detail_phase_identifiers [OF c d2, of failing_client example_state] f
  have two: "snd (detail_phase failing_client 2 example_batch example_state) = Inl ServiceError"
    by blast
  from one two show ?thesis using c d a d2 f by (simp add: example_prompts_def)
qed

subsection \<open>The filter of the short phase\<close>




subsection \<open>Unreadable files\<close>

text \<open>
  Claim C6. The code does not do what the claim says. The file \<^verbatim>\<open>notes.py\<close> is read
  without an exception, and the helper returns its title line and its content, not the
  marker of a failed read. The content holds the words \<^verbatim>\<open>Can not read file\<close>, so
  the guard of \<^verbatim>\<open>main\<close> skips the file and the detail mapping is empty.
\<close>

theorem readable_file_with_marker_skipped:
  "read_text marker_env ''notes.py'' = Some ''msg = Can not read file''
   \<and> read_file_content marker_env ''notes.py'' ''.'' False
       = (''------------------------------ notes.py ------------------------------\<newline>msg = Can not read file\<newline>'',
          ''notes.py'')
   \<and> detail_prompts marker_env ''.'' ''review'' [''notes.py''] = []"
  by (simp add: marker_env_def detail_prompts_def read_file_content_def Let_def str_in_def
      CANT_READ_FILE_MES_def sublist_code replicate_marker)

subsection \<open>The short prompts\<close>

text \<open>
  Claim C7. Whatever the detail phase returns as its result mapping, the short prompts
  built from it have the same identifiers, in the same order and each once; the prompt
  of an identifier is two system messages, the first with the short instruction as its
  content and the second with the detail text of that identifier as its content.
\<close>

theorem short_prompts_one_to_one:
  assumes "detail_phase cl c M s = (s', Inr R)"
  shows "distinct (map fst R)
       \<and> map fst (short_prompts short_analysis_prompt R) = map fst R
       \<and> short_prompts short_analysis_prompt R =
           map (\<lambda>(key, val). (key, [\<lparr>role = ''system'', content = short_analysis_prompt\<rparr>,
                                     \<lparr>role = ''system'', content = val\<rparr>])) R"
proof -
  have d: "distinct (map fst R)" using assms by (rule detail_phase_distinct)
  have eq: "short_prompts short_analysis_prompt R =
           map (\<lambda>(key, val). (key, [\<lparr>role = ''system'', content = short_analysis_prompt\<rparr>,
                                     \<lparr>role = ''system'', content = val\<rparr>])) R"
    using short_prompts_eq [OF d, of short_analysis_prompt]
    by (simp add: to_openai_system_message_def)
  have "map fst (short_prompts short_analysis_prompt R) = map fst R"
    by (simp add: eq case_prod_unfold comp_def)
  with d eq show ?thesis by blast
qed

theorem short_prompts_one_to_one_witness:
  "snd (detail_phase echo_client 2 example_prompts example_state)
     = Inr [(''a.py'', ''## a.py\<newline>\<newline>print(1)''),
            (''b.py'', ''## b.py\<newline>\<newline>print(2)''),
            (''c.py'', ''## c.py\<newline>\<newline>print(3)'')]
   \<and> short_prompts ''condense''
         [(''a.py'', ''## a.py\<newline>\<newline>print(1)''),
          (''b.py'', ''## b.py\<newline>\<newline>print(2)''),
          (''c.py'', ''## c.py\<newline>\<newline>print(3)'')]
       = [(''a.py'', [\<lparr>role = ''system'', content = ''condense''\<rparr>,
                      \<lparr>role = ''system'', content = ''## a.py\<newline>\<newline>print(1)''\<rparr>]),
          (''b.py'', [\<lparr>role = ''system'', content = ''condense''\<rparr>,
                      \<lparr>role = ''system'', content = ''## b.py\<newline>\<newline>print(2)''\<rparr>]),
          (''c.py'', [\<lparr>role = ''system'', content = ''condense''\<rparr>,
                      \<lparr>role = ''system'', content = ''## c.py\<newline>\<newline>print(3)''\<rparr>])]"
proof -
  have c: "(1::int) \<le> 2" by simp
  have d: "distinct (map fst example_prompts)" by (simp add: example_prompts_def)
  have a: "answers echo_client (length (issued example_state)) example_prompts
       = map Some [''print(1)'', ''print(2)'', ''print(3)'']"
    by (simp add: example_prompts_def example_state_def echo_client_def task_request_def
        to_openai_user_message_def to_openai_system_message_def)
  let ?R = "[(''a.py'', ''## a.py\<newline>\<newline>print(1)''),
            (''b.py'', ''## b.py\<newline>\<newline>print(2)''),
            (''c.py'', ''## c.py\<newline>\<newline>print(3)'')]"
  from detail_phase_ok [OF c d a]
  obtain s' where run: "detail_phase echo_client 2 example_prompts example_state = (s', Inr ?R)"
    by (simp add: example_prompts_def format_title_def MD_TITLE_def)
  from short_prompts_one_to_one [OF run, of "''condense''"]
  have "short_prompts ''condense'' ?R =
           map (\<lambda>(key, val). (key, [\<lparr>role = ''system'', content = ''condense''\<rparr>,
                                     \<lparr>role = ''system'', content = val\<rparr>])) ?R" by blast
  with run show ?thesis by simp
qed

subsection \<open>The single project request\<close>

lemma project_prompt_text:
  "read_text e (local_path @ ''/prompts/project.md'') = Some txt \<Longrightarrow>
   fst (read_file_content e (PROJECT_ANALYSIS_PROMPT local_path) local_path True)
     = txt @ ''\<newline>''"
  by (simp add: read_file_content_def Let_def PROJECT_ANALYSIS_PROMPT_def)

text \<open>
  Claim C8. In a run of \<^verbatim>\<open>main\<close> whose detail and short phases complete, the short
  phase ending in state \<open>s2\<close> with the kept texts \<open>far\<close>, the project phase adds exactly
  one request to those issued so far. Its messages are system messages whose contents
  are the kept texts, in order, followed by a system message whose content is the
  project instruction (the text of the project prompt file and a newline); it carries the
  model and the seed of the module. The phase returns the one text the service answers
  (or raises when the service fails), and \<^verbatim>\<open>main\<close> appends that text to the project
  report.
\<close>

theorem project_phase_single_request:
  fixes cl :: client and e :: env and local_path tree :: string and s :: state
  defines "dp \<equiv> fst (read_file_content e (DETAIL_ANALYSIS_PROMPT local_path) local_path True)"
    and "sp \<equiv> fst (read_file_content e (SHORT_ANALYSIS_PROMPT local_path) local_path True)"
    and "pp \<equiv> fst (read_file_content e (PROJECT_ANALYSIS_PROMPT local_path) local_path True)"
    and "s0 \<equiv> write_to_md DETAIL_ANALYSIS_MD
                 (MD_TITLE @ ''Project tree:\<newline>```\<newline>'' @ tree @ ''```\<newline>'') s"
  assumes "detail_phase cl NUMBER_OF_CONCURRENT_REQUESTS
             (detail_prompts e directory dp project_files) s0 = (s1, Inr R)"
    and "short_phase cl NUMBER_OF_CONCURRENT_REQUESTS (short_prompts sp R) s1 = (s2, Inr far)"
  shows "issued (fst (main cl e local_path directory tree project_files s))
           = issued s2
             @ [\<lparr>model = MODEL,
                 messages = map (\<lambda>t. \<lparr>role = ''system'', content = t\<rparr>) far
                              @ [\<lparr>role = ''system'', content = pp\<rparr>],
                 seed = Some SEED\<rparr>]
       \<and> project_phase cl pp far s2
           = (s2\<lparr>issued := issued s2
                  @ [\<lparr>model = MODEL,
                 messages = map (\<lambda>t. \<lparr>role = ''system'', content = t\<rparr>) far
                              @ [\<lparr>role = ''system'', content = pp\<rparr>],
                 seed = Some SEED\<rparr>]\<rparr>,
              case cl (length (issued s2))
                     \<lparr>model = MODEL,
                 messages = map (\<lambda>t. \<lparr>role = ''system'', content = t\<rparr>) far
                              @ [\<lparr>role = ''system'', content = pp\<rparr>],
                 seed = Some SEED\<rparr> of
                None \<Rightarrow> Inl ServiceError
              | Some text \<Rightarrow> Inr text)
       \<and> (\<forall>text. cl (length (issued s2))
                     \<lparr>model = MODEL,
                 messages = map (\<lambda>t. \<lparr>role = ''system'', content = t\<rparr>) far
                              @ [\<lparr>role = ''system'', content = pp\<rparr>],
                 seed = Some SEED\<rparr> = Some text \<longrightarrow>
             main cl e local_path directory tree project_files s
               = (s2\<lparr>issued := issued s2
                      @ [\<lparr>model = MODEL,
                 messages = map (\<lambda>t. \<lparr>role = ''system'', content = t\<rparr>) far
                              @ [\<lparr>role = ''system'', content = pp\<rparr>],
                 seed = Some SEED\<rparr>],
                     written := written s2
                      @ [(''project_analysis.md'', text @ ''\<newline>'')]\<rparr>,
                  Inr ()))
       \<and> (\<forall>txt. read_text e (local_path @ ''/prompts/project.md'') = Some txt \<longrightarrow>
             pp = txt @ ''\<newline>'')"
proof -
  have rq: "task_request (project_messages pp far)
      = \<lparr>model = MODEL,
                 messages = map (\<lambda>t. \<lparr>role = ''system'', content = t\<rparr>) far
                              @ [\<lparr>role = ''system'', content = pp\<rparr>],
                 seed = Some SEED\<rparr>"
    by (simp add: task_request_def project_messages_def to_openai_system_message_def)
  note m = main_after_phases [OF assms(5,6) [unfolded dp_def sp_def s0_def],
      folded pp_def, unfolded rq]
  have p: "\<forall>txt. read_text e (local_path @ ''/prompts/project.md'') = Some txt \<longrightarrow>
             pp = txt @ ''\<newline>''"
    unfolding pp_def by (simp add: project_prompt_text)
  show ?thesis
    using p by (simp add: m project_phase_eq rq PROJECT_ANALYSIS_MD_def split: option.splits)
qed

theorem project_phase_single_request_witness:
  "messages (last (issued (fst (main echo_client run_env ''lp'' ''.'' ''tree''
                                  [''a.py'', ''b.py''] example_state))))
     = [\<lparr>role = ''system'', content = ''## a.py\<newline>\<newline>## a.py\<newline>\<newline>'' @ a_text\<rparr>,
        \<lparr>role = ''system'', content = ''text\<newline>''\<rparr>]
   \<and> read_text run_env (''lp'' @ ''/prompts/project.md'') = Some ''text''"
proof -
  let ?s0 = "write_to_md DETAIL_ANALYSIS_MD
               (MD_TITLE @ ''Project tree:\<newline>```\<newline>'' @ ''tree'' @ ''```\<newline>'') example_state"
  let ?D = "[(''a.py'', [to_openai_system_message ''text\<newline>'', to_openai_user_message a_text])]"
  let ?R = "[(''a.py'', format_title ''a.py'' a_text)]"
  let ?SP = "[(''a.py'', [to_openai_system_message ''text\<newline>'',
                          to_openai_system_message (format_title ''a.py'' a_text)])]"
  let ?far = "[format_title ''a.py'' (format_title ''a.py'' a_text)]"
  have a1: "answers echo_client (length (issued ?s0)) ?D = map Some [a_text]"
    by (simp add: echo_client_def task_request_def to_openai_user_message_def)
  from detail_phase_ok [OF number_pos _ a1]
  obtain s1 where d1: "detail_phase echo_client NUMBER_OF_CONCURRENT_REQUESTS ?D ?s0 = (s1, Inr ?R)"
    by simp
  have a2: "answers echo_client (length (issued s1)) ?SP
      = map Some [format_title ''a.py'' a_text]"
    by (simp add: echo_client_def task_request_def to_openai_system_message_def)
  have keep: "\<not> str_in NO_CHANGES (format_title ''a.py'' (format_title ''a.py'' a_text))"
    by (simp add: str_in_def NO_CHANGES_def format_title_def MD_TITLE_def a_text_def
        sublist_code)
  from short_phase_ok [OF number_pos _ a2] keep
  obtain s2 where sh: "short_phase echo_client NUMBER_OF_CONCURRENT_REQUESTS ?SP s1
      = (s2, Inr ?far)"
    by simp
  have p1: "detail_phase echo_client NUMBER_OF_CONCURRENT_REQUESTS
       (detail_prompts run_env ''.''
          (fst (read_file_content run_env (DETAIL_ANALYSIS_PROMPT ''lp'') ''lp'' True))
          [''a.py'', ''b.py''])
       ?s0 = (s1, Inr ?R)"
    by (simp only: run_env_prompts run_env_detail_prompts d1)
  have p2: "short_phase echo_client NUMBER_OF_CONCURRENT_REQUESTS
       (short_prompts
          (fst (read_file_content run_env (SHORT_ANALYSIS_PROMPT ''lp'') ''lp'' True)) ?R)
       s1 = (s2, Inr ?far)"
    by (simp only: run_env_prompts run_env_short_prompts sh)
  from project_phase_single_request [OF p1 p2]
  have "issued (fst (main echo_client run_env ''lp'' ''.'' ''tree'' [''a.py'', ''b.py'']
                       example_state))
      = issued s2
        @ [\<lparr>model = MODEL,
            messages = map (\<lambda>t. \<lparr>role = ''system'', content = t\<rparr>) ?far
              @ [\<lparr>role = ''system'', content =
                   fst (read_file_content run_env (PROJECT_ANALYSIS_PROMPT ''lp'') ''lp'' True)\<rparr>],
            seed = Some SEED\<rparr>]"
    by blast
  then show ?thesis
    by (simp add: run_env_prompts format_title_def MD_TITLE_def) (simp add: run_env_def)
qed

text \<open>
  Claim C10. When no file can be read, a run of \<^verbatim>\<open>main\<close> issues one request in
  all, whose only message is a system message with the project instruction as its
  content. When the detail and short phases complete and the short phase kept no text,
  the run issues, after the requests of the two phases, exactly one request with that
  one message. The project phase is not skipped.
\<close>

theorem empty_context_project_request:
  fixes cl :: client and e :: env and local_path tree :: string and s :: state
  defines "dp \<equiv> fst (read_file_content e (DETAIL_ANALYSIS_PROMPT local_path) local_path True)"
    and "sp \<equiv> fst (read_file_content e (SHORT_ANALYSIS_PROMPT local_path) local_path True)"
    and "pp \<equiv> fst (read_file_content e (PROJECT_ANALYSIS_PROMPT local_path) local_path True)"
    and "s0 \<equiv> write_to_md DETAIL_ANALYSIS_MD
                 (MD_TITLE @ ''Project tree:\<newline>```\<newline>'' @ tree @ ''```\<newline>'') s"
  shows "((\<forall>f \<in> set project_files. read_text e f = None) \<longrightarrow>
            issued (fst (main cl e local_path directory tree project_files s))
              = issued s
                @ [\<lparr>model = MODEL, messages = [\<lparr>role = ''system'', content = pp\<rparr>],
                    seed = Some SEED\<rparr>])
       \<and> (detail_phase cl NUMBER_OF_CONCURRENT_REQUESTS
             (detail_prompts e directory dp project_files) s0 = (s1, Inr R)
          \<and> short_phase cl NUMBER_OF_CONCURRENT_REQUESTS (short_prompts sp R) s1 = (s2, Inr [])
          \<longrightarrow>
            issued (fst (main cl e local_path directory tree project_files s))
              = issued s2
                @ [\<lparr>model = MODEL, messages = [\<lparr>role = ''system'', content = pp\<rparr>],
                    seed = Some SEED\<rparr>])
       \<and> (\<forall>txt. read_text e (local_path @ ''/prompts/project.md'') = Some txt \<longrightarrow>
             pp = txt @ ''\<newline>'')"
proof -
  have rq: "task_request (project_messages pp [])
      = \<lparr>model = MODEL, messages = [\<lparr>role = ''system'', content = pp\<rparr>],
                    seed = Some SEED\<rparr>"
    by (simp add: task_request_def project_messages_def to_openai_system_message_def)
  have general: "issued (fst (main cl e local_path directory tree project_files s))
              = issued t2 @ [task_request (project_messages pp [])]"
    if "detail_phase cl NUMBER_OF_CONCURRENT_REQUESTS
             (detail_prompts e directory dp project_files) s0 = (t1, Inr Q)"
      and "short_phase cl NUMBER_OF_CONCURRENT_REQUESTS (short_prompts sp Q) t1 = (t2, Inr [])"
    for t1 t2 Q
    using main_after_phases [OF that [unfolded dp_def sp_def s0_def], folded pp_def]
    by (simp split: option.splits)
  have first: "issued (fst (main cl e local_path directory tree project_files s))
              = issued s @ [task_request (project_messages pp [])]"
    if "\<forall>f \<in> set project_files. read_text e f = None"
  proof -
    have D: "detail_prompts e directory dp project_files = []"
      using that by (rule detail_prompts_unreadable)
    have "issued (fst (main cl e local_path directory tree project_files s))
              = issued s0 @ [task_request (project_messages pp [])]"
      by (rule general [of s0 "[]" s0])
        (simp_all add: D detail_phase_empty short_phase_empty short_prompts_def)
    then show ?thesis by (simp add: s0_def write_to_md_def)
  qed
  have p: "\<forall>txt. read_text e (local_path @ ''/prompts/project.md'') = Some txt \<longrightarrow>
             pp = txt @ ''\<newline>''"
    unfolding pp_def by (simp add: project_prompt_text)
  show ?thesis using first general p by (simp add: rq)
qed

theorem empty_context_project_request_witness:
  "issued (fst (main echo_client run_env ''lp'' ''.'' ''tree'' [''b.py''] example_state))
     = [\<lparr>model = MODEL, messages = [\<lparr>role = ''system'', content = ''text\<newline>''\<rparr>],
         seed = Some SEED\<rparr>]
   \<and> messages (last (issued (fst (main no_changes_client run_env ''lp'' ''.'' ''tree''
                                      [''a.py'', ''b.py''] example_state))))
     = [\<lparr>role = ''system'', content = ''text\<newline>''\<rparr>]"
proof -
  let ?s0 = "write_to_md DETAIL_ANALYSIS_MD
               (MD_TITLE @ ''Project tree:\<newline>```\<newline>'' @ ''tree'' @ ''```\<newline>'') example_state"
  let ?D = "[(''a.py'', [to_openai_system_message ''text\<newline>'', to_openai_user_message a_text])]"
  let ?R = "[(''a.py'', format_title ''a.py'' ''No changes required'')]"
  let ?SP = "[(''a.py'', [to_openai_system_message ''text\<newline>'',
                to_openai_system_message (format_title ''a.py'' ''No changes required'')])]"
  have a1: "answers no_changes_client (length (issued ?s0)) ?D
      = map Some [''No changes required'']"
    by (simp add: no_changes_client_def)
  from detail_phase_ok [OF number_pos _ a1]
  obtain s1 where d1: "detail_phase no_changes_client NUMBER_OF_CONCURRENT_REQUESTS ?D ?s0
      = (s1, Inr ?R)"
    by simp
  have a2: "answers no_changes_client (length (issued s1)) ?SP
      = map Some [''No changes required'']"
    by (simp add: no_changes_client_def)
  have drop: "str_in NO_CHANGES (format_title ''a.py'' ''No changes required'')"
    by (simp add: str_in_def NO_CHANGES_def format_title_def MD_TITLE_def sublist_code)
  from short_phase_ok [OF number_pos _ a2] drop
  obtain s2 where sh: "short_phase no_changes_client NUMBER_OF_CONCURRENT_REQUESTS ?SP s1
      = (s2, Inr [])"
    by simp
  have p1: "detail_phase no_changes_client NUMBER_OF_CONCURRENT_REQUESTS
       (detail_prompts run_env ''.''
          (fst (read_file_content run_env (DETAIL_ANALYSIS_PROMPT ''lp'') ''lp'' True))
          [''a.py'', ''b.py''])
       ?s0 = (s1, Inr ?R)"
    by (simp only: run_env_prompts run_env_detail_prompts d1)
  have p2: "short_phase no_changes_client NUMBER_OF_CONCURRENT_REQUESTS
       (short_prompts
          (fst (read_file_content run_env (SHORT_ANALYSIS_PROMPT ''lp'') ''lp'' True)) ?R)
       s1 = (s2, Inr [])"
    by (simp only: run_env_prompts run_env_short_prompts sh)
  have unreadable: "\<forall>f \<in> set [''b.py'']. read_text run_env f = None"
    by (simp add: run_env_def)
  note thm1 = empty_context_project_request [of "[''b.py'']" run_env echo_client "''lp''"
      "''.''" "''tree''" example_state]
  note thm2 = empty_context_project_request [of "[''a.py'', ''b.py'']" run_env
      no_changes_client "''lp''" "''.''" "''tree''" example_state s1 ?R s2]
  from thm1 unreadable
  have one: "issued (fst (main echo_client run_env ''lp'' ''.'' ''tree'' [''b.py'']
                       example_state))
     = issued example_state
       @ [\<lparr>model = MODEL,
           messages = [\<lparr>role = ''system'', content =
              fst (read_file_content run_env (PROJECT_ANALYSIS_PROMPT ''lp'') ''lp'' True)\<rparr>],
           seed = Some SEED\<rparr>]"
    by blast
  from thm2 p1 p2
  have two: "issued (fst (main no_changes_client run_env ''lp'' ''.'' ''tree''
                            [''a.py'', ''b.py''] example_state))
     = issued s2
       @ [\<lparr>model = MODEL,
           messages = [\<lparr>role = ''system'', content =
              fst (read_file_content run_env (PROJECT_ANALYSIS_PROMPT ''lp'') ''lp'' True)\<rparr>],
           seed = Some SEED\<rparr>]"
    by blast
  from one two show ?thesis by (simp add: run_env_prompts example_state_def)
qed

subsection \<open>Abort on failure\<close>











end
